theory Spec2Isabelle
  imports Main
begin

section \<open>The build action of the application builder (build-action.ts)\<close>

text \<open>
  The theory embeds \<^verbatim>\<open>runEsBuildBuildAction\<close> and \<^verbatim>\<open>writeAndEmitOutput\<close> of
  \<^verbatim>\<open>packages/angular/build/src/builders/application/build-action.ts\<close>.
  The async generator is modelled by the list of external calls it makes, in order
  (its trace), together with the way it ends. Everything it calls and does not define
  (the build action, the logger, the watcher, the result writer, the file system) is a
  field of the environment \<open>env\<close>: what the call returns, or whether it throws.
  A call is one event: every call is awaited, so it has settled when the next one is
  made. A session is followed until the generator ends; the batches the watcher delivers
  before it is closed are a finite list.
\<close>

subsection \<open>Data\<close>

type_synonym path = string

datatype exn = Exn string

datatype BuildOutputFileType = Browser | Server | Root

text \<open>Modelled from the spec: \<^verbatim>\<open>BuildOutputFile\<close> (tools/esbuild/bundler-context) is the
  spec's OutputFile, a path, its contents and a kind.\<close>

record BuildOutputFile =
  path :: path
  contents :: string
  kind :: BuildOutputFileType

text \<open>The fields of \<^verbatim>\<open>ExecutionResult\<close> that the build action reads. \<open>rid\<close> is the
  identity of the object, so that the result a \<^verbatim>\<open>dispose()\<close> call is made on can be told.\<close>

record ExecutionResult =
  rid :: nat
  errors :: "string list"
  watchFiles :: "path list"
  outputFiles :: "BuildOutputFile list"
  assetFiles :: "(path \<times> path) list"

record ChangedFiles =
  added :: "path list"
  modified :: "path list"
  removed :: "path list"

text \<open>Modelled from the spec: \<^verbatim>\<open>createRebuildState\<close> (tools/esbuild/bundler-execution-result)
  gives the rebuild token derived from the batch and the previous Execution Result.\<close>

record RebuildState =
  previous :: ExecutionResult
  fileChanges :: ChangedFiles

definition createRebuildState :: "ExecutionResult \<Rightarrow> ChangedFiles \<Rightarrow> RebuildState" where
  "createRebuildState r changes = \<lparr>previous = r, fileChanges = changes\<rparr>"

record NormalizedOutputOptions =
  base :: path
  browser :: path
  server :: path

datatype BuildActionOutput =
    Output bool
  | OutputWithFiles bool "BuildOutputFile list" "(path \<times> path) list"

text \<open>Modelled from the spec: the getters \<^verbatim>\<open>output\<close> and \<^verbatim>\<open>outputWithFiles\<close> of
  \<^verbatim>\<open>ExecutionResult\<close> (tools/esbuild/bundler-execution-result): the plain summary view,
  and the in-memory view that carries the files. (\<open>output\<close> is a keyword of Isabelle, hence
  \<open>output_view\<close>.)\<close>

definition output_view :: "ExecutionResult \<Rightarrow> BuildActionOutput" where
  "output_view r = Output (errors r = [])"

definition outputWithFiles :: "ExecutionResult \<Rightarrow> BuildActionOutput" where
  "outputWithFiles r = OutputWithFiles (errors r = []) (outputFiles r) (assetFiles r)"

fun file_contents :: "BuildActionOutput \<Rightarrow> (path \<times> string) list" where
  "file_contents (Output ok) = []"
| "file_contents (OutputWithFiles ok fs as) = map (\<lambda>f. (path f, contents f)) fs"

text \<open>The parameter \<^verbatim>\<open>options\<close>. \<open>signal\<close> is the optional AbortSignal: \<open>Some f\<close> is a signal
  whose \<^verbatim>\<open>aborted\<close> flag reads \<open>f n\<close> when the loop receives its \<open>n\<close>-th batch. The options
  \<^verbatim>\<open>colors\<close> and \<^verbatim>\<open>jsonLogs\<close> are only handed to \<^verbatim>\<open>logMessages\<close> and are left out.\<close>

record options =
  workspaceRoot :: path
  projectRoot :: path
  outputOptions :: NormalizedOutputOptions
  cacheOptions_basePath :: path
  writeToFileSystem :: bool
  writeToFileSystemFilter :: "(BuildOutputFile \<Rightarrow> bool) option"
  watch :: bool
  verbose :: bool
  progress :: bool
  deleteOutputPath :: bool
  poll :: "nat option"
  signal :: "(nat \<Rightarrow> bool) option"
  preserveSymlinks :: bool
  clearScreen :: bool

text \<open>The external calls of the generator. An event is recorded when the call is made,
  whether it returns or throws. The call of the build action carries its argument and what
  it returned; \<open>LogMessages\<close> and \<open>Dispose\<close> carry the identity of the result they are
  called on; \<open>LoggerDebug\<close> is \<^verbatim>\<open>logger.info(changes.toDebugString())\<close>;
  \<open>CreateWatcher\<close> carries the options \<^verbatim>\<open>polling\<close>, \<^verbatim>\<open>interval\<close>, \<^verbatim>\<open>followSymlinks\<close> and
  \<^verbatim>\<open>ignored\<close>; \<open>WatcherAdd\<close> of a single string carries the one-element list. The two
  teardown calls carry whether their promise rejected, since \<^verbatim>\<open>Promise.allSettled\<close>
  swallows the rejection.\<close>

datatype event =
    DeleteOutputDir path path "path list"
  | Action "RebuildState option" "exn + ExecutionResult"
  | LogMessages nat
  | ShutdownSassWorkerPool
  | LoggerInfo string
  | LoggerDebug ChangedFiles
  | CreateWatcher bool "nat option" bool "string list"
  | AddAbortListener
  | WatcherAdd "path list"
  | WatcherRemove "path list"
  | WriteResultFiles "BuildOutputFile list" "(path \<times> path) list" NormalizedOutputOptions
  | Yield BuildActionOutput
  | ConsoleClear
  | WatcherClose bool
  | Dispose nat bool

text \<open>How the generator ends: it completes, or an exception reaches its consumer.\<close>

datatype outcome = Completed | Threw exn

text \<open>The environment. The natural number of a field is the number of the build the call
  belongs to: 0 is the initial build, \<open>n\<close> the rebuild for the \<open>n\<close>-th batch of the watcher.
  \<open>batches\<close> is what iterating the watcher delivers: each item is a batch or a failure of
  the iterator, and the end of the list is the watcher being closed.
  \<open>consumer_returns n\<close> says that the consumer stops iterating (calls \<^verbatim>\<open>return()\<close>) when it
  is handed the output of build \<open>n\<close>.\<close>

record env =
  shouldWatchRoot :: bool
  existsSync :: "path \<Rightarrow> bool"
  path_join :: "path \<Rightarrow> path \<Rightarrow> path"
  action :: "nat \<Rightarrow> RebuildState option \<Rightarrow> exn + ExecutionResult"
  deleteOutputDir_throws :: "exn option"
  logMessages_throws :: "nat \<Rightarrow> exn option"
  createWatcher_throws :: "exn option"
  watcher_add_throws :: "nat \<Rightarrow> path list \<Rightarrow> exn option"
  watcher_remove_throws :: "nat \<Rightarrow> exn option"
  writeResultFiles_throws :: "nat \<Rightarrow> exn option"
  close_rejects :: bool
  dispose_rejects :: bool
  batches :: "(exn + ChangedFiles) list"
  consumer_returns :: "nat \<Rightarrow> bool"

text \<open>The locals of the generator that live across the rebuild loop.\<close>

record state =
  trace :: "event list"
  result :: ExecutionResult
  currentWatchFiles :: "path list"

subsection \<open>JavaScript sets\<close>

text \<open>A JavaScript \<^verbatim>\<open>Set\<close> of strings is the list of its members in insertion order.\<close>

definition Set_has :: "path list \<Rightarrow> path \<Rightarrow> bool" where
  "Set_has s x = (x \<in> set s)"

definition Set_add :: "path list \<Rightarrow> path \<Rightarrow> path list" where
  "Set_add s x = (if x \<in> set s then s else s @ [x])"

definition Set_delete :: "path list \<Rightarrow> path \<Rightarrow> path list" where
  "Set_delete s x = removeAll x s"

definition new_Set :: "path list \<Rightarrow> path list" where
  "new_Set xs = fold (\<lambda>x s. Set_add s x) xs []"

subsection \<open>The watcher\<close>

text \<open>Modelled from the spec: the Watcher (tools/esbuild/watcher) holds a set of subscribed
  paths; \<^verbatim>\<open>add\<close> and \<^verbatim>\<open>remove\<close> are idempotent, adding an already-watched path or
  removing an absent one is a no-op. The subscribed set after a trace is the replay of its
  watcher calls.\<close>

fun watcher_step :: "path set \<Rightarrow> event \<Rightarrow> path set" where
  "watcher_step S (WatcherAdd ps) = S \<union> set ps"
| "watcher_step S (WatcherRemove ps) = S - set ps"
| "watcher_step S (CreateWatcher p i f ig) = {}"
| "watcher_step S e = S"

definition subscribed :: "event list \<Rightarrow> path set" where
  "subscribed tr = foldl watcher_step {} tr"

subsection \<open>writeAndEmitOutput\<close>

text \<open>Returns the calls made and the value returned (or the exception of the writer).\<close>

definition writeAndEmitOutput ::
  "env \<Rightarrow> nat \<Rightarrow> bool \<Rightarrow> ExecutionResult \<Rightarrow> NormalizedOutputOptions \<Rightarrow>
   (BuildOutputFile \<Rightarrow> bool) option \<Rightarrow> event list \<times> (exn + BuildActionOutput)" where
  "writeAndEmitOutput E n writeToFS r oo fileFilter =
     (if writeToFS then
        (let outputFilesToWrite =
               (case fileFilter of Some f \<Rightarrow> filter f (outputFiles r) | None \<Rightarrow> outputFiles r)
         in ([WriteResultFiles outputFilesToWrite (assetFiles r) oo],
             (case writeResultFiles_throws E n of Some x \<Rightarrow> Inl x | None \<Rightarrow> Inr (output_view r))))
      else ([], Inr (outputWithFiles r)))"

subsection \<open>runEsBuildBuildAction\<close>

definition packageWatchFiles :: "string list" where
  "packageWatchFiles =
     [''package.json'', ''package-lock.json'', ''pnpm-lock.yaml'', ''yarn.lock'',
      ''.pnp.cjs'', ''.pnp.data.json'']"

text \<open>A straight-line sequence of external calls: it stops at the first one that throws.\<close>

fun calls :: "(event \<times> exn option) list \<Rightarrow> event list \<times> exn option" where
  "calls [] = ([], None)"
| "calls ((e, Some x) # cs) = ([e], Some x)"
| "calls ((e, None) # cs) = (case calls cs of (es, r) \<Rightarrow> (e # es, r))"

text \<open>Lines 93 to 106: the initial build, with the \<^verbatim>\<open>finally\<close> that shuts the Sass workers
  down when not watching. (\<^verbatim>\<open>withProgress\<close> only wraps the call in a spinner.)\<close>

definition initial_build :: "env \<Rightarrow> options \<Rightarrow> event list \<times> (exn + ExecutionResult)" where
  "initial_build E opts =
     (let fin = (if \<not> watch opts then [ShutdownSassWorkerPool] else []) in
      case action E 0 None of
        Inl x \<Rightarrow> ([Action None (Inl x)] @ fin, Inl x)
      | Inr r \<Rightarrow>
          ([Action None (Inr r), LogMessages (rid r)] @ fin,
           (case logMessages_throws E 0 of Some x \<Rightarrow> Inl x | None \<Rightarrow> Inr r)))"

definition ignored :: "options \<Rightarrow> string list" where
  "ignored opts =
     [base (outputOptions opts), cacheOptions_basePath opts,
      map (\<lambda>c. if c = CHR 0x5C then CHR ''/'' else c) (workspaceRoot opts) @ ''/**/.*/**'']
     @ (if \<not> preserveSymlinks opts then [''**/node_modules/**''] else [])"

definition package_paths :: "env \<Rightarrow> options \<Rightarrow> path list" where
  "package_paths E opts =
     filter (existsSync E) (map (path_join E (workspaceRoot opts)) packageWatchFiles)"

text \<open>Lines 110 to 154: the watcher and its first subscriptions. The abort listener closes
  the watcher from outside the generator when the signal fires; the generator sees that as
  the end of \<open>batches\<close>.\<close>

definition setup_watcher :: "env \<Rightarrow> options \<Rightarrow> ExecutionResult \<Rightarrow> event list \<times> exn option" where
  "setup_watcher E opts r =
     calls
       ((if progress opts
         then [(LoggerInfo ''Watch mode enabled. Watching for file changes...'', None)] else [])
        @ [(CreateWatcher (poll opts \<noteq> None) (poll opts) (preserveSymlinks opts) (ignored opts),
            createWatcher_throws E)]
        @ (if signal opts \<noteq> None then [(AddAbortListener, None)] else [])
        @ (if shouldWatchRoot E
           then [(WatcherAdd [projectRoot opts], watcher_add_throws E 0 [projectRoot opts])]
           else [])
        @ [(WatcherAdd (package_paths E opts), watcher_add_throws E 0 (package_paths E opts)),
           (WatcherAdd (watchFiles r), watcher_add_throws E 0 (watchFiles r))])"

text \<open>Lines 84 to 159: everything up to the first \<^verbatim>\<open>yield\<close>: the calls made, and the
  initial result with the value about to be yielded, or the exception thrown.\<close>

definition before_first_yield ::
  "env \<Rightarrow> options \<Rightarrow> event list \<times> (exn + ExecutionResult \<times> BuildActionOutput)" where
  "before_first_yield E opts =
     (case (if deleteOutputPath opts \<and> writeToFileSystem opts
            then calls [(DeleteOutputDir (workspaceRoot opts) (base (outputOptions opts))
                           [browser (outputOptions opts), server (outputOptions opts)],
                         deleteOutputDir_throws E)]
            else ([], None)) of
        (tr0, Some x) \<Rightarrow> (tr0, Inl x)
      | (tr0, None) \<Rightarrow>
         (case initial_build E opts of
            (tr1, Inl x) \<Rightarrow> (tr0 @ tr1, Inl x)
          | (tr1, Inr r) \<Rightarrow>
             (case (if watch opts then setup_watcher E opts r else ([], None)) of
                (tr2, Some x) \<Rightarrow> (tr0 @ tr1 @ tr2, Inl x)
              | (tr2, None) \<Rightarrow>
                 (case writeAndEmitOutput E 0 (writeToFileSystem opts) r (outputOptions opts)
                         (writeToFileSystemFilter opts) of
                    (tr3, Inl x) \<Rightarrow> (tr0 @ tr1 @ tr2 @ tr3, Inl x)
                  | (tr3, Inr out) \<Rightarrow> (tr0 @ tr1 @ tr2 @ tr3, Inr (r, out))))))"

text \<open>Lines 84 to 167: everything before the rebuild loop. \<open>Inl\<close> is the generator ending
  there, \<open>Inr\<close> the locals with which the loop is entered. The watcher exists exactly when
  watch mode was requested.\<close>

definition start :: "env \<Rightarrow> options \<Rightarrow> (outcome \<times> event list) + state" where
  "start E opts =
     (case before_first_yield E opts of
        (tr, Inl x) \<Rightarrow> Inl (Threw x, tr)
      | (tr, Inr (r, out)) \<Rightarrow>
          if consumer_returns E 0 then Inl (Completed, tr @ [Yield out])
          else if \<not> watch opts then Inl (Completed, tr @ [Yield out])
          else Inr \<lparr>trace = tr @ [Yield out], result = r,
                    currentWatchFiles = new_Set (watchFiles r)\<rparr>)"

text \<open>Lines 197 to 206: the loop over the watch files of the new result.\<close>

fun add_watch_files ::
  "env \<Rightarrow> nat \<Rightarrow> path list \<Rightarrow> state \<Rightarrow> path list option \<Rightarrow>
   exn option \<times> state \<times> path list option" where
  "add_watch_files E n [] s stale = (None, s, stale)"
| "add_watch_files E n (watchFile # rest) s stale =
     (if \<not> Set_has (currentWatchFiles s) watchFile then
        (case watcher_add_throws E n [watchFile] of
           Some x \<Rightarrow> (Some x, s\<lparr>trace := trace s @ [WatcherAdd [watchFile]]\<rparr>, stale)
         | None \<Rightarrow>
             add_watch_files E n rest
               (s\<lparr>trace := trace s @ [WatcherAdd [watchFile]],
                  currentWatchFiles := Set_add (currentWatchFiles s) watchFile\<rparr>)
               (map_option (\<lambda>t. Set_delete t watchFile) stale))
      else add_watch_files E n rest s (map_option (\<lambda>t. Set_delete t watchFile) stale))"

text \<open>Lines 196 to 210: the watch files are reconciled with the new result.\<close>

definition reconcile :: "env \<Rightarrow> nat \<Rightarrow> state \<Rightarrow> exn option \<times> state" where
  "reconcile E n s =
     (let staleWatchFiles =
            (if length (errors (result s)) > 0 then None else Some (currentWatchFiles s))
      in case add_watch_files E n (watchFiles (result s)) s staleWatchFiles of
           (Some x, s', stale) \<Rightarrow> (Some x, s')
         | (None, s', None) \<Rightarrow> (None, s')
         | (None, s', Some t) \<Rightarrow>
             (if length t > 0
              then (watcher_remove_throws E n, s'\<lparr>trace := trace s' @ [WatcherRemove t]\<rparr>)
              else (None, s')))"

text \<open>Lines 174 to 217: the body of the loop for one batch, up to and including the yield.\<close>

definition rebuild :: "env \<Rightarrow> options \<Rightarrow> nat \<Rightarrow> ChangedFiles \<Rightarrow> state \<Rightarrow> exn option \<times> state" where
  "rebuild E opts n changes s0 =
     (let s1 = s0\<lparr>trace := trace s0 @ (if clearScreen opts then [ConsoleClear] else [])
                                  @ (if verbose opts then [LoggerDebug changes] else [])\<rparr>;
          s2 = s1\<lparr>currentWatchFiles :=
                    fold (\<lambda>removedPath cur. Set_delete cur removedPath) (removed changes)
                      (currentWatchFiles s1)\<rparr>;
          arg = createRebuildState (result s2) changes;
          s3 = s2\<lparr>trace := trace s2 @ [Action (Some arg) (action E n (Some arg))]\<rparr>
      in case action E n (Some arg) of
           Inl x \<Rightarrow> (Some x, s3)
         | Inr r \<Rightarrow>
            (let s4 = s3\<lparr>result := r, trace := trace s3 @ [LogMessages (rid r)]\<rparr> in
             case logMessages_throws E n of
               Some x \<Rightarrow> (Some x, s4)
             | None \<Rightarrow>
                (case reconcile E n s4 of
                   (Some x, s5) \<Rightarrow> (Some x, s5)
                 | (None, s5) \<Rightarrow>
                    (case writeAndEmitOutput E n (writeToFileSystem opts) (result s5)
                            (outputOptions opts) (writeToFileSystemFilter opts) of
                       (tr, Inl x) \<Rightarrow> (Some x, s5\<lparr>trace := trace s5 @ tr\<rparr>)
                     | (tr, Inr out) \<Rightarrow> (None, s5\<lparr>trace := trace s5 @ tr @ [Yield out]\<rparr>)))))"

definition aborted :: "options \<Rightarrow> nat \<Rightarrow> bool" where
  "aborted opts n = (case signal opts of None \<Rightarrow> False | Some f \<Rightarrow> f n)"

text \<open>Lines 169 to 218: the \<^verbatim>\<open>for await\<close> over the watcher.\<close>

fun rebuild_loop ::
  "env \<Rightarrow> options \<Rightarrow> nat \<Rightarrow> (exn + ChangedFiles) list \<Rightarrow> state \<Rightarrow> outcome \<times> state" where
  "rebuild_loop E opts n [] s = (Completed, s)"
| "rebuild_loop E opts n (Inl x # bs) s = (Threw x, s)"
| "rebuild_loop E opts n (Inr changes # bs) s =
     (if aborted opts n then (Completed, s)
      else case rebuild E opts n changes s of
             (Some x, s') \<Rightarrow> (Threw x, s')
           | (None, s') \<Rightarrow>
               if consumer_returns E n then (Completed, s')
               else rebuild_loop E opts (Suc n) bs s')"

text \<open>Lines 219 to 224: the \<^verbatim>\<open>finally\<close> of the loop.\<close>

definition teardown :: "env \<Rightarrow> state \<Rightarrow> state" where
  "teardown E s =
     s\<lparr>trace := trace s @ [WatcherClose (close_rejects E),
                            Dispose (rid (result s)) (dispose_rejects E),
                            ShutdownSassWorkerPool]\<rparr>"

text \<open>Lines 168 to 224: the loop inside its \<^verbatim>\<open>try\<close>.\<close>

definition watch_loop :: "env \<Rightarrow> options \<Rightarrow> state \<Rightarrow> outcome \<times> state" where
  "watch_loop E opts s =
     (case rebuild_loop E opts 1 (batches E) s of (out, s') \<Rightarrow> (out, teardown E s'))"

definition run :: "env \<Rightarrow> options \<Rightarrow> outcome \<times> event list" where
  "run E opts =
     (case start E opts of
        Inl r \<Rightarrow> r
      | Inr s \<Rightarrow> (case watch_loop E opts s of (out, s') \<Rightarrow> (out, trace s')))"

subsection \<open>Reading a trace\<close>

fun is_Yield :: "event \<Rightarrow> bool" where
  "is_Yield (Yield out) = True"
| "is_Yield e = False"

fun is_CreateWatcher :: "event \<Rightarrow> bool" where
  "is_CreateWatcher (CreateWatcher p i f ig) = True"
| "is_CreateWatcher e = False"

text \<open>The values handed to the consumer, in order.\<close>

fun yields :: "event list \<Rightarrow> BuildActionOutput list" where
  "yields [] = []"
| "yields (Yield out # es) = out # yields es"
| "yields (e # es) = yields es"

text \<open>The results \<^verbatim>\<open>dispose()\<close> was called on, in order.\<close>

fun disposed :: "event list \<Rightarrow> nat list" where
  "disposed [] = []"
| "disposed (Dispose i b # es) = i # disposed es"
| "disposed (e # es) = disposed es"

text \<open>The most recent Execution Result: what the last returning call of the build action
  returned.\<close>

fun latest_step :: "ExecutionResult option \<Rightarrow> event \<Rightarrow> ExecutionResult option" where
  "latest_step cur (Action a (Inr r)) = Some r"
| "latest_step cur e = cur"

definition latest_result :: "event list \<Rightarrow> ExecutionResult option" where
  "latest_result tr = foldl latest_step None tr"

text \<open>The Execution Results of the session: what the calls of the build action returned, in
  order.\<close>

fun built :: "event list \<Rightarrow> ExecutionResult list" where
  "built [] = []"
| "built (Action a (Inr r) # es) = r # built es"
| "built (e # es) = built es"


subsection \<open>Example sessions\<close>

text \<open>An environment in which nothing throws and the watcher delivers nothing; the examples
  below change the fields they need. Only \<^verbatim>\<open>/ws/package.json\<close> exists on disk.\<close>

definition quiet_env :: env where
  "quiet_env =
     \<lparr>shouldWatchRoot = False,
      existsSync = (\<lambda>p. p = ''/ws/package.json''),
      path_join = (\<lambda>d f. d @ ''/'' @ f),
      action = (\<lambda>n a. Inl (Exn ''build failed'')),
      deleteOutputDir_throws = None,
      logMessages_throws = (\<lambda>n. None),
      createWatcher_throws = None,
      watcher_add_throws = (\<lambda>n ps. None),
      watcher_remove_throws = (\<lambda>n. None),
      writeResultFiles_throws = (\<lambda>n. None),
      close_rejects = False,
      dispose_rejects = False,
      batches = [],
      consumer_returns = (\<lambda>n. False)\<rparr>"

definition dist :: NormalizedOutputOptions where
  "dist = \<lparr>base = ''/ws/dist'', browser = ''browser'', server = ''server''\<rparr>"

definition watch_opts :: options where
  "watch_opts =
     \<lparr>workspaceRoot = ''/ws'', projectRoot = ''/ws/app'', outputOptions = dist,
      cacheOptions_basePath = ''/ws/.cache'',
      writeToFileSystem = True, writeToFileSystemFilter = None,
      watch = True, verbose = False, progress = False, deleteOutputPath = True,
      poll = None, signal = None, preserveSymlinks = False, clearScreen = False\<rparr>"

text \<open>A result with identity \<open>i\<close>, the given error diagnostics and watch files, two output
  files and one asset.\<close>

definition res :: "nat \<Rightarrow> string list \<Rightarrow> path list \<Rightarrow> ExecutionResult" where
  "res i errs wfs =
     \<lparr>rid = i, errors = errs, watchFiles = wfs,
      outputFiles = [\<lparr>path = ''main.js'', contents = ''x'', kind = Browser\<rparr>,
                     \<lparr>path = ''main.server.mjs'', contents = ''y'', kind = Server\<rparr>],
      assetFiles = [(''/ws/src/favicon.ico'', ''favicon.ico'')]\<rparr>"

definition touch :: "path \<Rightarrow> exn + ChangedFiles" where
  "touch p = Inr \<lparr>added = [], modified = [p], removed = []\<rparr>"

text \<open>The locals in a watch session whose watcher was given the project root, the package
  manifest and \<^verbatim>\<open>a.ts\<close>, \<^verbatim>\<open>b.ts\<close>, when a rebuild has just returned \<open>r\<close>.\<close>

definition watching :: "path list \<Rightarrow> ExecutionResult \<Rightarrow> state" where
  "watching cur r =
     \<lparr>trace = [CreateWatcher False None False [], WatcherAdd [''/ws/app''],
               WatcherAdd [''/ws/package.json''], WatcherAdd [''/ws/a.ts'', ''/ws/b.ts'']],
      result = r, currentWatchFiles = cur\<rparr>"

text \<open>The same locals when the rebuild returned a result with an error diagnostic, and one
  without: both report \<^verbatim>\<open>a.ts\<close> and the new \<^verbatim>\<open>c.ts\<close>, and no longer \<^verbatim>\<open>b.ts\<close>.\<close>

definition broken_rebuild :: state where
  "broken_rebuild =
     watching [''/ws/a.ts'', ''/ws/b.ts''] (res 1 [''TS2322''] [''/ws/a.ts'', ''/ws/c.ts''])"


text \<open>A session with \<^verbatim>\<open>NG_BUILD_WATCH_ROOT\<close> set in which every build succeeds: the initial
  build reports \<^verbatim>\<open>a.ts\<close> and \<^verbatim>\<open>b.ts\<close>, the first rebuild only \<^verbatim>\<open>a.ts\<close>, every later
  rebuild both again. \<open>drop_session bs\<close> is the locals when the loop has run on the batches
  \<open>bs\<close>.\<close>

definition drop_env :: env where
  "drop_env = quiet_env
     \<lparr>shouldWatchRoot := True,
      action := (\<lambda>n a. if n = 0 then Inr (res 0 [] [''/ws/a.ts'', ''/ws/b.ts''])
                        else if n = 1 then Inr (res 1 [] [''/ws/a.ts''])
                        else Inr (res n [] [''/ws/a.ts'', ''/ws/b.ts'']))\<rparr>"

definition drop_session :: "(exn + ChangedFiles) list \<Rightarrow> state" where
  "drop_session bs =
     snd (rebuild_loop drop_env watch_opts 1 bs (projr (start drop_env watch_opts)))"

text \<open>The session \<open>drop_env\<close> when the watcher delivers one batch and is then closed.\<close>

definition drop_once :: env where
  "drop_once = drop_env\<lparr>batches := [touch ''/ws/a.ts'']\<rparr>"

text \<open>The session \<open>drop_env\<close> when the rebuilds after the first report \<^verbatim>\<open>a.ts\<close> and
  \<^verbatim>\<open>b.ts\<close> with an error diagnostic. \<open>relapse_session bs\<close> is the locals when the loop
  has run on the batches \<open>bs\<close>.\<close>

definition relapse_env :: env where
  "relapse_env = drop_env
     \<lparr>action := (\<lambda>n a. if n = 0 then Inr (res 0 [] [''/ws/a.ts'', ''/ws/b.ts''])
                        else if n = 1 then Inr (res 1 [] [''/ws/a.ts''])
                        else Inr (res n [''TS2322''] [''/ws/a.ts'', ''/ws/b.ts'']))\<rparr>"

definition relapse_session :: "(exn + ChangedFiles) list \<Rightarrow> state" where
  "relapse_session bs =
     snd (rebuild_loop relapse_env watch_opts 1 bs (projr (start relapse_env watch_opts)))"

text \<open>A single build without watch mode, and a watch session whose rebuild throws and
  whose watcher fails to close.\<close>

definition build_opts :: options where
  "build_opts = watch_opts\<lparr>watch := False\<rparr>"

definition single_env :: env where
  "single_env = quiet_env\<lparr>action := (\<lambda>n a. Inr (res 0 [] [''/ws/a.ts'']))\<rparr>"

definition failing_rebuild_env :: env where
  "failing_rebuild_env = quiet_env
     \<lparr>action := (\<lambda>n a. if n = 0 then Inr (res 0 [] [''/ws/a.ts''])
                        else Inl (Exn ''rebuild failed'')),
      batches := [touch ''/ws/a.ts''],
      close_rejects := True\<rparr>"

section \<open>Properties\<close>

lemmas run_defs = start_def before_first_yield_def initial_build_def setup_watcher_def
  writeAndEmitOutput_def rebuild_def reconcile_def aborted_def createRebuildState_def
  package_paths_def packageWatchFiles_def ignored_def new_Set_def output_view_def
  outputWithFiles_def Set_has_def Set_add_def Set_delete_def

lemmas example_defs = watch_opts_def dist_def res_def quiet_env_def touch_def watching_def

lemmas session_defs = run_def watch_loop_def teardown_def run_defs example_defs
  drop_env_def drop_once_def build_opts_def single_env_def failing_rebuild_env_def
  relapse_env_def

subsection \<open>Sets and the watcher\<close>

lemma subscribed_snoc: "subscribed (tr @ [e]) = watcher_step (subscribed tr) e"
  by (simp add: subscribed_def)

lemma subscribed_append: "subscribed (tr @ es) = foldl watcher_step (subscribed tr) es"
  by (simp add: subscribed_def)

lemma set_Set_add: "set (Set_add s x) = insert x (set s)"
  by (auto simp: Set_add_def)

lemma set_Set_delete: "set (Set_delete s x) = set s - {x}"
  by (simp add: Set_delete_def)

lemma set_fold_Set_delete:
  "set (fold (\<lambda>p cur. Set_delete cur p) ps s) = set s - set ps"
  by (induction ps arbitrary: s) (auto simp: set_Set_delete)

lemma set_fold_Set_add: "set (fold (\<lambda>x s. Set_add s x) xs acc) = set acc \<union> set xs"
  by (induction xs arbitrary: acc) (auto simp: set_Set_add)

lemma set_new_Set: "set (new_Set xs) = set xs"
  by (simp add: new_Set_def set_fold_Set_add)

lemma subscribed_adds:
  "subscribed (tr @ map (\<lambda>p. WatcherAdd [p]) ps) = subscribed tr \<union> set ps"
  by (induction ps arbitrary: tr rule: rev_induct)
     (auto simp: subscribed_snoc simp flip: append_assoc)

lemma filter_Set_delete:
  "filter (\<lambda>p. p \<notin> set wfs) (Set_delete t w) = filter (\<lambda>p. p \<notin> set (w # wfs)) t"
  by (induction t) (auto simp: Set_delete_def)

subsection \<open>The loop over the new watch files\<close>

lemma add_watch_files_result:
  "add_watch_files E n wfs s stale = (r, s', stale') \<Longrightarrow> result s' = result s"
  by (induction wfs arbitrary: s stale) (auto split: if_splits option.splits)

lemma add_watch_files_no_stale:
  "add_watch_files E n wfs s None = (r, s', st) \<Longrightarrow> st = None"
  by (induction wfs arbitrary: s) (auto split: if_splits option.splits)

text \<open>The loop only calls \<^verbatim>\<open>watcher.add\<close>, once per path, and only on paths that were not
  in \<^verbatim>\<open>currentWatchFiles\<close>.\<close>

lemma add_watch_files_trace:
  "add_watch_files E n wfs s stale = (r, s', stale') \<Longrightarrow>
   \<exists>ps. trace s' = trace s @ map (\<lambda>p. WatcherAdd [p]) ps \<and> distinct ps \<and>
        set ps \<subseteq> set wfs - set (currentWatchFiles s)"
proof (induction wfs arbitrary: s stale)
  case Nil
  then show ?case by auto
next
  case (Cons w wfs)
  show ?case
  proof (cases "Set_has (currentWatchFiles s) w")
    case True
    with Cons.prems
    have "add_watch_files E n wfs s (map_option (\<lambda>t. Set_delete t w) stale) = (r, s', stale')"
      by simp
    from Cons.IH [OF this] show ?thesis by auto
  next
    case notin: False
    show ?thesis
    proof (cases "watcher_add_throws E n [w]")
      case (Some x)
      with notin Cons.prems have "trace s' = trace s @ map (\<lambda>p. WatcherAdd [p]) [w]"
        by auto
      moreover have "set [w] \<subseteq> set (w # wfs) - set (currentWatchFiles s)"
        using notin by (simp add: Set_has_def)
      ultimately show ?thesis by (metis distinct_singleton)
    next
      case None
      let ?s1 = "s\<lparr>trace := trace s @ [WatcherAdd [w]],
                   currentWatchFiles := Set_add (currentWatchFiles s) w\<rparr>"
      from None notin Cons.prems
      have "add_watch_files E n wfs ?s1 (map_option (\<lambda>t. Set_delete t w) stale)
              = (r, s', stale')"
        by simp
      from Cons.IH [OF this] obtain ps where
        ps: "trace s' = trace ?s1 @ map (\<lambda>p. WatcherAdd [p]) ps" "distinct ps"
            "set ps \<subseteq> set wfs - set (currentWatchFiles ?s1)"
        by blast
      have "trace s' = trace s @ map (\<lambda>p. WatcherAdd [p]) (w # ps)"
        using ps(1) by simp
      moreover have "distinct (w # ps)"
        using ps(2,3) by (auto simp: set_Set_add)
      moreover have "set (w # ps) \<subseteq> set (w # wfs) - set (currentWatchFiles s)"
        using ps(3) notin by (auto simp: set_Set_add Set_has_def)
      ultimately show ?thesis by blast
    qed
  qed
qed

lemma add_watch_files_current:
  "add_watch_files E n wfs s stale = (r, s', stale') \<Longrightarrow>
   set (currentWatchFiles s) \<subseteq> set (currentWatchFiles s') \<and>
   set (currentWatchFiles s') \<subseteq> set (currentWatchFiles s) \<union> set wfs"
proof (induction wfs arbitrary: s stale)
  case Nil
  then show ?case by auto
next
  case (Cons w wfs)
  then show ?case
    by (fastforce simp: set_Set_add Set_has_def split: if_splits option.splits)
qed

text \<open>When no call throws, the bookkeeping holds every new watch file, the watcher was given
  those that were not in the bookkeeping, and the stale set has lost every new watch file.\<close>

lemma add_watch_files_done:
  "add_watch_files E n wfs s stale = (None, s', stale') \<Longrightarrow>
   set (currentWatchFiles s') = set (currentWatchFiles s) \<union> set wfs \<and>
   subscribed (trace s') = subscribed (trace s) \<union> (set wfs - set (currentWatchFiles s)) \<and>
   stale' = map_option (filter (\<lambda>p. p \<notin> set wfs)) stale"
proof (induction wfs arbitrary: s stale)
  case Nil
  then show ?case by (cases stale) auto
next
  case (Cons w wfs)
  show ?case
  proof (cases "Set_has (currentWatchFiles s) w")
    case True
    with Cons.prems
    have "add_watch_files E n wfs s (map_option (\<lambda>t. Set_delete t w) stale) = (None, s', stale')"
      by simp
    from Cons.IH [OF this] True show ?thesis
      by (cases stale) (auto simp: Set_has_def filter_Set_delete)
  next
    case notin: False
    then obtain thr: "watcher_add_throws E n [w] = None"
      using Cons.prems by (auto split: option.splits)
    let ?s1 = "s\<lparr>trace := trace s @ [WatcherAdd [w]],
                 currentWatchFiles := Set_add (currentWatchFiles s) w\<rparr>"
    from thr notin Cons.prems
    have "add_watch_files E n wfs ?s1 (map_option (\<lambda>t. Set_delete t w) stale)
            = (None, s', stale')"
      by simp
    from Cons.IH [OF this] notin show ?thesis
      by (cases stale) (auto simp: Set_has_def filter_Set_delete set_Set_add subscribed_snoc)
  qed
qed

lemma reconcile_result: "reconcile E n s = (r, s') \<Longrightarrow> result s' = result s"
  by (auto simp: reconcile_def Let_def dest: add_watch_files_result
           split: prod.splits option.splits if_splits)

text \<open>A reconciliation that completes, with or without error diagnostics, leaves every new
  watch file in \<^verbatim>\<open>currentWatchFiles\<close>, and passes to \<^verbatim>\<open>watcher.add\<close> no path that was in
  \<^verbatim>\<open>currentWatchFiles\<close>; at most one call of \<^verbatim>\<open>watcher.remove\<close> follows the adds.\<close>

lemma reconcile_keeps_watch_files:
  assumes "reconcile E n s = (None, s')"
  shows "set (watchFiles (result s)) \<subseteq> set (currentWatchFiles s') \<and>
         (\<exists>ps t. trace s' = trace s @ map (\<lambda>p. WatcherAdd [p]) ps @ t \<and>
                 set ps \<inter> set (currentWatchFiles s) = {} \<and>
                 (t = [] \<or> (\<exists>q. t = [WatcherRemove q])))"
proof -
  let ?st = "if length (errors (result s)) > 0 then None else Some (currentWatchFiles s)"
  obtain x s1 st' where
    aw: "add_watch_files E n (watchFiles (result s)) s ?st = (x, s1, st')"
    using prod_cases3 by blast
  have x: "x = None"
    using assms aw by (auto simp: reconcile_def Let_def split: option.splits if_splits)
  have s1: "s' = s1 \<or> (\<exists>q. s' = s1\<lparr>trace := trace s1 @ [WatcherRemove q]\<rparr>)"
    using assms aw
    by (auto simp: reconcile_def Let_def split: option.splits if_splits)
  from add_watch_files_trace [OF aw] obtain ps where
    ps: "trace s1 = trace s @ map (\<lambda>p. WatcherAdd [p]) ps"
        "set ps \<subseteq> set (watchFiles (result s)) - set (currentWatchFiles s)"
    by blast
  from add_watch_files_done [OF aw [unfolded x]]
  have cur: "set (watchFiles (result s)) \<subseteq> set (currentWatchFiles s1)" by simp
  from s1 show ?thesis
  proof
    assume "s' = s1"
    with ps cur have "trace s' = trace s @ map (\<lambda>p. WatcherAdd [p]) ps @ []"
      "set ps \<inter> set (currentWatchFiles s) = {}"
      "set (watchFiles (result s)) \<subseteq> set (currentWatchFiles s')"
      by auto
    then show ?thesis by blast
  next
    assume "\<exists>q. s' = s1\<lparr>trace := trace s1 @ [WatcherRemove q]\<rparr>"
    then obtain q where "s' = s1\<lparr>trace := trace s1 @ [WatcherRemove q]\<rparr>" by blast
    with ps cur have "trace s' = trace s @ map (\<lambda>p. WatcherAdd [p]) ps @ [WatcherRemove q]"
      "set ps \<inter> set (currentWatchFiles s) = {}"
      "set (watchFiles (result s)) \<subseteq> set (currentWatchFiles s')"
      by auto
    then show ?thesis by blast
  qed
qed

subsection \<open>Traces and the calls before the first output\<close>

lemma disposed_append: "disposed (a @ b) = disposed a @ disposed b"
  by (induction a rule: disposed.induct) auto

lemma yields_append: "yields (a @ b) = yields a @ yields b"
  by (induction a rule: yields.induct) auto

lemma latest_result_append: "latest_result (a @ b) = foldl latest_step (latest_result a) b"
  by (simp add: latest_result_def)

lemma disposed_adds: "disposed (map (\<lambda>p. WatcherAdd [p]) ps) = []"
  by (induction ps) auto

lemma latest_adds: "foldl latest_step x (map (\<lambda>p. WatcherAdd [p]) ps) = x"
  by (induction ps) auto

lemma yields_none: "(\<forall>e\<in>set tr. \<not> is_Yield e) \<Longrightarrow> yields tr = []"
  by (induction tr rule: yields.induct) auto

lemma takeWhile_first_yield:
  "\<forall>e\<in>set pre. \<not> is_Yield e \<Longrightarrow>
   takeWhile (\<lambda>e. \<not> is_Yield e) (pre @ Yield out # post) = pre"
  by (induction pre) auto

lemma calls_single: "calls [(e, t)] = ([e], t)"
  by (cases t) auto

lemma calls_None: "calls cs = (es, None) \<Longrightarrow> es = map fst cs"
  by (induction cs arbitrary: es rule: calls.induct) (auto split: prod.splits)

lemma calls_events: "calls cs = (es, r) \<Longrightarrow> set es \<subseteq> fst ` set cs"
  by (induction cs arbitrary: es rule: calls.induct) (auto split: prod.splits)

text \<open>The calls of the watcher setup.\<close>

lemma setup_watcher_events:
  assumes "setup_watcher E opts r = (tr, x)"
  shows "\<forall>e\<in>set tr. (\<exists>m. e = LoggerInfo m) \<or> is_CreateWatcher e \<or> e = AddAbortListener \<or>
                     (\<exists>ps. e = WatcherAdd ps)"
  using calls_events [OF assms [unfolded setup_watcher_def]]
  by (auto split: if_splits)

lemma setup_watcher_quiet:
  assumes "setup_watcher E opts r = (tr, x)"
  shows "(\<forall>e\<in>set tr. \<not> is_Yield e) \<and> disposed tr = [] \<and> foldl latest_step l tr = l"
proof -
  have "(\<forall>e\<in>set tr. (\<exists>m. e = LoggerInfo m) \<or> is_CreateWatcher e \<or> e = AddAbortListener \<or>
                     (\<exists>ps. e = WatcherAdd ps)) \<Longrightarrow>
        (\<forall>e\<in>set tr. \<not> is_Yield e) \<and> disposed tr = [] \<and> foldl latest_step l tr = l" for tr
    by (induction tr arbitrary: l) (auto elim: is_CreateWatcher.elims)
  with setup_watcher_events [OF assms] show ?thesis by blast
qed

lemma setup_watcher_done:
  assumes "setup_watcher E opts r = (tr, None)"
  shows "set ((if shouldWatchRoot E then [projectRoot opts] else []) @ package_paths E opts
              @ watchFiles r) \<subseteq> subscribed (pre @ tr)"
  using calls_None [OF assms [unfolded setup_watcher_def]]
  by (auto simp: subscribed_def)

lemma writeAndEmitOutput_quiet:
  "writeAndEmitOutput E n w r oo ff = (tr, x) \<Longrightarrow>
   (\<forall>e\<in>set tr. \<not> is_Yield e) \<and> disposed tr = [] \<and> foldl latest_step l tr = l \<and>
   foldl watcher_step S tr = S \<and> (\<forall>e\<in>set tr. \<not> is_CreateWatcher e)"
  by (auto simp: writeAndEmitOutput_def split: if_splits)

lemma before_first_yield_quiet:
  assumes "before_first_yield E opts = (tr, x)"
  shows "(\<forall>e\<in>set tr. \<not> is_Yield e) \<and> disposed tr = []"
  using assms
  by (auto simp: before_first_yield_def initial_build_def Let_def calls_single disposed_append
           dest!: setup_watcher_quiet [where l = None] writeAndEmitOutput_quiet [where l = None and S = "{}"]
           split: if_splits prod.splits option.splits sum.splits)

lemma before_first_yield_no_watcher:
  assumes "before_first_yield E opts = (tr, x)" "\<not> watch opts"
  shows "\<forall>e\<in>set tr. \<not> is_CreateWatcher e"
  using assms
  by (auto simp: before_first_yield_def initial_build_def Let_def calls_single disposed_append
           dest!: writeAndEmitOutput_quiet [where l = None and S = "{}"]
           split: if_splits prod.splits option.splits sum.splits)

lemma before_first_yield_result:
  assumes "before_first_yield E opts = (tr, Inr (r, out))"
  shows "action E 0 None = Inr r \<and> latest_result tr = Some r \<and>
         snd (writeAndEmitOutput E 0 (writeToFileSystem opts) r (outputOptions opts)
                (writeToFileSystemFilter opts)) = Inr out"
  using assms
  by (auto simp: before_first_yield_def initial_build_def latest_result_def Let_def calls_single disposed_append
           dest!: setup_watcher_quiet [where l = "Some r"] writeAndEmitOutput_quiet [where l = "Some r" and S = "{}"]
           split: if_splits prod.splits option.splits sum.splits)

lemma before_first_yield_subscribed:
  assumes "before_first_yield E opts = (tr, Inr (r, out))" "watch opts"
  shows "set ((if shouldWatchRoot E then [projectRoot opts] else []) @ package_paths E opts
              @ watchFiles r) \<subseteq> subscribed tr"
proof -
  from assms obtain tr01 tr2 tr3 x where
    tr: "tr = tr01 @ tr2 @ tr3" and su: "setup_watcher E opts r = (tr2, None)"
    and w: "writeAndEmitOutput E 0 (writeToFileSystem opts) r (outputOptions opts)
                (writeToFileSystemFilter opts) = (tr3, x)"
    by (auto simp: before_first_yield_def Let_def calls_single
             split: if_splits prod.splits option.splits sum.splits)
  have "subscribed tr = subscribed (tr01 @ tr2)"
    using writeAndEmitOutput_quiet [OF w, of None "subscribed (tr01 @ tr2)"]
    unfolding tr by (simp add: subscribed_def)
  with setup_watcher_done [OF su, of tr01] show ?thesis by simp
qed

subsection \<open>The rebuild loop\<close>

lemma reconcile_ext:
  assumes "reconcile E n s = (r, s')"
  shows "\<exists>ext. trace s' = trace s @ ext \<and> disposed ext = [] \<and>
               (\<forall>l. foldl latest_step l ext = l)"
proof -
  let ?st = "if length (errors (result s)) > 0 then None else Some (currentWatchFiles s)"
  obtain x s1 st' where
    aw': "add_watch_files E n (watchFiles (result s)) s ?st = (x, s1, st')"
    using prod_cases3 by blast
  have s1: "s' = s1 \<or> (\<exists>t. s' = s1\<lparr>trace := trace s1 @ [WatcherRemove t]\<rparr>)"
    using assms aw'
    by (auto simp: reconcile_def Let_def split: option.splits if_splits)
  from aw' add_watch_files_trace obtain ps where
    ps: "trace s1 = trace s @ map (\<lambda>p. WatcherAdd [p]) ps"
    by blast
  from s1 show ?thesis
  proof
    assume "s' = s1"
    with ps show ?thesis by (auto simp: disposed_adds latest_adds)
  next
    assume "\<exists>t. s' = s1\<lparr>trace := trace s1 @ [WatcherRemove t]\<rparr>"
    then obtain t where "s' = s1\<lparr>trace := trace s1 @ [WatcherRemove t]\<rparr>" by blast
    with ps have "trace s' = trace s @ (map (\<lambda>p. WatcherAdd [p]) ps @ [WatcherRemove t])"
      by simp
    moreover have "disposed (map (\<lambda>p. WatcherAdd [p]) ps @ [WatcherRemove t]) = []"
      by (simp add: disposed_append disposed_adds)
    moreover have "\<forall>l. foldl latest_step l (map (\<lambda>p. WatcherAdd [p]) ps @ [WatcherRemove t]) = l"
      by (simp add: latest_adds)
    ultimately show ?thesis by blast
  qed
qed

lemma rebuild_ext:
  assumes "rebuild E opts n changes s = (x, s')"
  shows "\<exists>ext. trace s' = trace s @ ext \<and> disposed ext = []"
proof (cases "action E n (Some (createRebuildState (result s) changes))")
  case (Inl e)
  with assms show ?thesis
    by (auto simp: rebuild_def Let_def disposed_append)
next
  case (Inr r)
  let ?s4 = "s\<lparr>currentWatchFiles :=
                    fold (\<lambda>removedPath cur. Set_delete cur removedPath) (removed changes)
                      (currentWatchFiles s),
                result := r,
                trace := trace s @ (if clearScreen opts then [ConsoleClear] else [])
                                  @ (if verbose opts then [LoggerDebug changes] else [])
                                  @ [Action (Some (createRebuildState (result s) changes)) (Inr r),
                                     LogMessages (rid r)]\<rparr>"
  have d4: "\<exists>ext. trace ?s4 = trace s @ ext \<and> disposed ext = []"
    by (simp add: disposed_append)
  show ?thesis
  proof (cases "logMessages_throws E n")
    case (Some e)
    with Inr assms have "s' = ?s4"
      by (auto simp: rebuild_def Let_def)
    with d4 show ?thesis by simp
  next
    case None
    obtain y s5 where rec: "reconcile E n ?s4 = (y, s5)" by force
    from reconcile_ext [OF rec] obtain ext5 where
      e5: "trace s5 = trace ?s4 @ ext5" "disposed ext5 = []" by blast
    obtain tr w where w: "writeAndEmitOutput E n (writeToFileSystem opts) (result s5)
                            (outputOptions opts) (writeToFileSystemFilter opts) = (tr, w)"
      by force
    have dtr: "disposed tr = []"
      using writeAndEmitOutput_quiet [OF w, of None "{}"] by simp
    from Inr None rec w assms
    have "s' = s5 \<or> s' = s5\<lparr>trace := trace s5 @ tr\<rparr> \<or>
          (\<exists>out. s' = s5\<lparr>trace := trace s5 @ tr @ [Yield out]\<rparr>)"
      by (auto simp: rebuild_def Let_def split: option.splits sum.splits)
    then consider "trace s' = trace s5" | "trace s' = trace s5 @ tr"
      | out where "trace s' = trace s5 @ tr @ [Yield out]"
      by auto
    then show ?thesis
    proof cases
      case 1
      with e5 d4 show ?thesis by (auto simp: disposed_append)
    next
      case 2
      with e5 d4 dtr show ?thesis by (auto simp: disposed_append)
    next
      case 3
      with e5 d4 dtr show ?thesis by (auto simp: disposed_append)
    qed
  qed
qed

lemma rebuild_latest:
  assumes "rebuild E opts n changes s = (x, s')"
    and "latest_result (trace s) = Some (result s)"
  shows "latest_result (trace s') = Some (result s')"
proof (cases "action E n (Some (createRebuildState (result s) changes))")
  case (Inl e)
  with assms show ?thesis
    by (auto simp: rebuild_def Let_def latest_result_def)
next
  case (Inr r)
  let ?s4 = "s\<lparr>currentWatchFiles :=
                    fold (\<lambda>removedPath cur. Set_delete cur removedPath) (removed changes)
                      (currentWatchFiles s),
                result := r,
                trace := trace s @ (if clearScreen opts then [ConsoleClear] else [])
                                  @ (if verbose opts then [LoggerDebug changes] else [])
                                  @ [Action (Some (createRebuildState (result s) changes)) (Inr r),
                                     LogMessages (rid r)]\<rparr>"
  have l4: "latest_result (trace ?s4) = Some (result ?s4)"
    by (simp add: latest_result_def)
  show ?thesis
  proof (cases "logMessages_throws E n")
    case (Some e)
    with Inr assms have "s' = ?s4"
      by (auto simp: rebuild_def Let_def)
    with l4 show ?thesis by simp
  next
    case None
    obtain y s5 where rec: "reconcile E n ?s4 = (y, s5)" by force
    from reconcile_ext [OF rec] obtain ext5 where
      e5: "trace s5 = trace ?s4 @ ext5" "\<forall>l. foldl latest_step l ext5 = l" by blast
    have r5: "result s5 = result ?s4"
      using reconcile_result [OF rec] .
    have l5: "latest_result (trace s5) = Some (result s5)"
      using e5 l4 r5 by (simp add: latest_result_append)
    obtain tr w where w: "writeAndEmitOutput E n (writeToFileSystem opts) (result s5)
                            (outputOptions opts) (writeToFileSystemFilter opts) = (tr, w)"
      by force
    have ltr: "foldl latest_step l tr = l" for l
      using writeAndEmitOutput_quiet [OF w, of l "{}"] by simp
    from Inr None rec w assms
    have "s' = s5 \<or> s' = s5\<lparr>trace := trace s5 @ tr\<rparr> \<or>
          (\<exists>out. s' = s5\<lparr>trace := trace s5 @ tr @ [Yield out]\<rparr>)"
      by (auto simp: rebuild_def Let_def split: option.splits sum.splits)
    with l5 ltr show ?thesis
      by (auto simp: latest_result_append)
  qed
qed

lemma rebuild_loop_ext:
  "rebuild_loop E opts n bs s = (out, s') \<Longrightarrow>
   \<exists>ext. trace s' = trace s @ ext \<and> disposed ext = []"
proof (induction bs arbitrary: n s)
  case Nil
  then show ?case by simp
next
  case (Cons b bs)
  show ?case
  proof (cases b)
    case (Inl e)
    with Cons.prems show ?thesis by simp
  next
    case (Inr changes)
    show ?thesis
    proof (cases "aborted opts n")
      case True
      with Inr Cons.prems show ?thesis by simp
    next
      case False
      obtain x s1 where rb: "rebuild E opts n changes s = (x, s1)" by force
      from rebuild_ext [OF rb] obtain ext1 where
        e1: "trace s1 = trace s @ ext1" "disposed ext1 = []" by blast
      from Inr False rb Cons.prems
      have "s' = s1 \<or> rebuild_loop E opts (Suc n) bs s1 = (out, s')"
        by (auto split: option.splits if_splits)
      then show ?thesis
      proof
        assume "s' = s1"
        with e1 show ?thesis by blast
      next
        assume "rebuild_loop E opts (Suc n) bs s1 = (out, s')"
        from Cons.IH [OF this] obtain ext2 where
          "trace s' = trace s1 @ ext2" "disposed ext2 = []" by blast
        with e1 have "trace s' = trace s @ (ext1 @ ext2)" "disposed (ext1 @ ext2) = []"
          by (simp_all add: disposed_append)
        then show ?thesis by blast
      qed
    qed
  qed
qed

lemma rebuild_loop_latest:
  "rebuild_loop E opts n bs s = (out, s') \<Longrightarrow> latest_result (trace s) = Some (result s) \<Longrightarrow>
   latest_result (trace s') = Some (result s')"
proof (induction bs arbitrary: n s)
  case Nil
  then show ?case by simp
next
  case (Cons b bs)
  show ?case
  proof (cases b)
    case (Inl e)
    with Cons.prems show ?thesis by simp
  next
    case (Inr changes)
    show ?thesis
    proof (cases "aborted opts n")
      case True
      with Inr Cons.prems show ?thesis by simp
    next
      case False
      obtain x s1 where rb: "rebuild E opts n changes s = (x, s1)" by force
      have l1: "latest_result (trace s1) = Some (result s1)"
        using rebuild_latest [OF rb Cons.prems(2)] .
      from Inr False rb Cons.prems
      have "s' = s1 \<or> rebuild_loop E opts (Suc n) bs s1 = (out, s')"
        by (auto split: option.splits if_splits)
      with l1 Cons.IH show ?thesis by blast
    qed
  qed
qed

subsection \<open>The whole run\<close>

lemma run_throw: "before_first_yield E opts = (tr, Inl x) \<Longrightarrow> run E opts = (Threw x, tr)"
  by (simp add: run_def start_def)

lemma start_state:
  assumes "start E opts = Inr s"
  shows "latest_result (trace s) = Some (result s) \<and> disposed (trace s) = [] \<and> watch opts \<and>
         (\<exists>tr out. before_first_yield E opts = (tr, Inr (result s, out)) \<and>
                   trace s = tr @ [Yield out])"
proof -
  obtain tr x where b: "before_first_yield E opts = (tr, x)" by force
  with assms obtain out where x: "x = Inr (result s, out)" and s: "trace s = tr @ [Yield out]"
    and w: "watch opts"
    by (auto simp: start_def split: sum.splits if_splits)
  from before_first_yield_result [OF b [unfolded x]] before_first_yield_quiet [OF b] s w b x
  show ?thesis by (simp add: latest_result_append disposed_append)
qed

lemma start_ended:
  assumes "start E opts = Inl (out, tr)"
  shows "run E opts = (out, tr) \<and> disposed tr = []"
proof -
  obtain tr0 x where b: "before_first_yield E opts = (tr0, x)" by force
  from before_first_yield_quiet [OF b] b assms show ?thesis
    by (auto simp: run_def start_def disposed_append split: sum.splits if_splits)
qed

lemma start_no_watch: "\<not> watch opts \<Longrightarrow> isl (start E opts)"
  by (auto simp: start_def split: prod.splits sum.splits)

lemma run_teardown:
  assumes "start E opts = Inr s"
  shows "\<exists>pre r. snd (run E opts) =
                   pre @ [WatcherClose (close_rejects E), Dispose (rid r) (dispose_rejects E),
                          ShutdownSassWorkerPool] \<and>
                 disposed pre = [] \<and> latest_result pre = Some r \<and>
                 fst (run E opts) = fst (rebuild_loop E opts 1 (batches E) s)"
proof -
  obtain out s' where loop: "rebuild_loop E opts 1 (batches E) s = (out, s')" by force
  from start_state [OF assms] have l: "latest_result (trace s) = Some (result s)"
    and d: "disposed (trace s) = []" by auto
  from rebuild_loop_ext [OF loop] d have "disposed (trace s') = []"
    by (auto simp: disposed_append)
  moreover have "latest_result (trace s') = Some (result s')"
    using rebuild_loop_latest [OF loop l] .
  moreover have "run E opts = (out, trace s' @ [WatcherClose (close_rejects E),
                    Dispose (rid (result s')) (dispose_rejects E), ShutdownSassWorkerPool])"
    using assms loop by (simp add: run_def watch_loop_def teardown_def)
  ultimately show ?thesis using loop by auto
qed

lemma run_yield:
  assumes "before_first_yield E opts = (tr, Inr (r, out))"
  shows "\<exists>ext. snd (run E opts) = tr @ Yield out # ext"
proof (cases "start E opts")
  case (Inl a)
  with assms show ?thesis
    by (auto simp: run_def start_def split: if_splits)
next
  case (Inr s)
  with assms have s: "trace s = tr @ [Yield out]"
    by (auto simp: start_def split: if_splits)
  obtain o' s' where loop: "rebuild_loop E opts 1 (batches E) s = (o', s')" by force
  from rebuild_loop_ext [OF loop] obtain ext where "trace s' = trace s @ ext" by blast
  with Inr loop s show ?thesis
    by (simp add: run_def watch_loop_def teardown_def)
qed

lemma run_prefix:
  assumes "before_first_yield E opts = (tr, x)"
  shows "\<exists>ext. snd (run E opts) = tr @ ext"
proof (cases x)
  case (Inl e)
  with assms run_throw show ?thesis by simp
next
  case (Inr p)
  with assms run_yield [of E opts tr "fst p" "snd p"] show ?thesis by auto
qed

lemma calls_append_None:
  "\<forall>c\<in>set A. snd c = None \<Longrightarrow> calls (A @ B) = (map fst A @ fst (calls B), snd (calls B))"
  by (induction A) (auto split: prod.splits)

lemma setup_watcher_packages:
  assumes "createWatcher_throws E = None"
    and "shouldWatchRoot E \<longrightarrow> watcher_add_throws E 0 [projectRoot opts] = None"
    and "watcher_add_throws E 0 (package_paths E opts) = None"
  shows "\<exists>a b. fst (setup_watcher E opts r) = a @ WatcherAdd (package_paths E opts) # b"
proof -
  let ?A = "(if progress opts
         then [(LoggerInfo ''Watch mode enabled. Watching for file changes...'', None)] else [])
        @ [(CreateWatcher (poll opts \<noteq> None) (poll opts) (preserveSymlinks opts) (ignored opts),
            createWatcher_throws E)]
        @ (if signal opts \<noteq> None then [(AddAbortListener, None)] else [])
        @ (if shouldWatchRoot E
           then [(WatcherAdd [projectRoot opts], watcher_add_throws E 0 [projectRoot opts])]
           else [])"
  let ?B = "[(WatcherAdd (package_paths E opts), watcher_add_throws E 0 (package_paths E opts)),
           (WatcherAdd (watchFiles r), watcher_add_throws E 0 (watchFiles r))]"
  have A: "\<forall>c\<in>set ?A. snd c = None"
    using assms by auto
  have "setup_watcher E opts r = calls (?A @ ?B)"
    by (simp add: setup_watcher_def)
  also have "\<dots> = (map fst ?A @ fst (calls ?B), snd (calls ?B))"
    using A by (rule calls_append_None)
  finally have "fst (setup_watcher E opts r) = map fst ?A @ fst (calls ?B)"
    by simp
  moreover have "fst (calls ?B) = WatcherAdd (package_paths E opts) # fst (calls [(WatcherAdd (watchFiles r), watcher_add_throws E 0 (watchFiles r))])"
    using assms(3) by (simp split: prod.splits)
  ultimately have "fst (setup_watcher E opts r) =
      map fst ?A @ WatcherAdd (package_paths E opts)
        # fst (calls [(WatcherAdd (watchFiles r), watcher_add_throws E 0 (watchFiles r))])"
    by simp
  then show ?thesis by blast
qed

lemma before_first_yield_setup:
  assumes "watch opts" "action E 0 None = Inr r" "logMessages_throws E 0 = None"
    and "deleteOutputPath opts \<and> writeToFileSystem opts \<longrightarrow> deleteOutputDir_throws E = None"
    and "before_first_yield E opts = (tr, x)"
  shows "\<exists>a b. tr = a @ fst (setup_watcher E opts r) @ b"
proof -
  obtain tr2 y where su: "setup_watcher E opts r = (tr2, y)" by force
  obtain tr3 z where w: "writeAndEmitOutput E 0 (writeToFileSystem opts) r (outputOptions opts)
                         (writeToFileSystemFilter opts) = (tr3, z)" by force
  let ?tr01 = "(if deleteOutputPath opts \<and> writeToFileSystem opts
                then [DeleteOutputDir (workspaceRoot opts) (base (outputOptions opts))
                        [browser (outputOptions opts), server (outputOptions opts)]]
                else [])
               @ [Action None (Inr r), LogMessages (rid r)]"
  from assms su w have "tr = ?tr01 @ tr2 @ [] \<or> tr = ?tr01 @ tr2 @ tr3"
    by (auto simp: before_first_yield_def initial_build_def calls_single
             split: option.splits sum.splits if_splits)
  then show ?thesis
    using su by (metis fst_conv)
qed

subsection \<open>The output materializer\<close>

text \<open>
  Claim C6. For every call of \<^verbatim>\<open>writeAndEmitOutput\<close>: when \<^verbatim>\<open>writeToFileSystem\<close> is
  true, the one call made is \<^verbatim>\<open>writeResultFiles\<close> on exactly the output files that pass
  the optional filter (all of them when there is none) together with the asset files,
  and, the writer returning, the value returned is the plain summary view, which holds
  no file contents; when \<^verbatim>\<open>writeToFileSystem\<close> is false no call is made, so nothing is
  written, and the value returned is the in-memory view, which holds the contents of
  every output file with its path.
\<close>

theorem writeAndEmitOutput_materializes:
  "(writeToFS \<longrightarrow>
      fst (writeAndEmitOutput E n writeToFS r oo fileFilter) =
        [WriteResultFiles
           (filter (\<lambda>f. case fileFilter of None \<Rightarrow> True | Some keep \<Rightarrow> keep f) (outputFiles r))
           (assetFiles r) oo] \<and>
      (writeResultFiles_throws E n = None \<longrightarrow>
         snd (writeAndEmitOutput E n writeToFS r oo fileFilter) = Inr (output_view r) \<and>
         file_contents (output_view r) = [])) \<and>
   (\<not> writeToFS \<longrightarrow>
      fst (writeAndEmitOutput E n writeToFS r oo fileFilter) = [] \<and>
      snd (writeAndEmitOutput E n writeToFS r oo fileFilter) = Inr (outputWithFiles r) \<and>
      file_contents (outputWithFiles r) = map (\<lambda>f. (path f, contents f)) (outputFiles r))"
  by (cases fileFilter)
     (simp_all add: writeAndEmitOutput_def output_view_def outputWithFiles_def)

theorem writeAndEmitOutput_materializes_witness:
  "fst (writeAndEmitOutput quiet_env 0 True (res 0 [] []) dist (Some (\<lambda>f. kind f = Browser))) =
     [WriteResultFiles [\<lparr>path = ''main.js'', contents = ''x'', kind = Browser\<rparr>]
        [(''/ws/src/favicon.ico'', ''favicon.ico'')] dist] \<and>
   snd (writeAndEmitOutput quiet_env 0 True (res 0 [] []) dist (Some (\<lambda>f. kind f = Browser))) =
     Inr (Output True) \<and>
   fst (writeAndEmitOutput quiet_env 0 False (res 0 [] []) dist None) = [] \<and>
   snd (writeAndEmitOutput quiet_env 0 False (res 0 [] []) dist None) =
     Inr (outputWithFiles (res 0 [] [])) \<and>
   file_contents (outputWithFiles (res 0 [] [])) =
     [(''main.js'', ''x''), (''main.server.mjs'', ''y'')]"
  using writeAndEmitOutput_materializes
          [of True quiet_env 0 "res 0 [] []" dist "Some (\<lambda>f. kind f = Browser)"]
        writeAndEmitOutput_materializes [of False quiet_env 0 "res 0 [] []" dist None]
  by (simp add: quiet_env_def res_def output_view_def)

subsection \<open>Reconciling the watch set\<close>

text \<open>
  When the result of a rebuild holds at least one error diagnostic, the reconciliation
  makes no call of \<^verbatim>\<open>watcher.remove\<close>: the only calls it makes are \<^verbatim>\<open>watcher.add\<close> on
  paths of the new watch files that were not in \<^verbatim>\<open>currentWatchFiles\<close>. So the subscribed
  set of the watcher and \<^verbatim>\<open>currentWatchFiles\<close> after it are supersets of what they were
  before it, and when it completes every path of the new watch files that was not in
  \<^verbatim>\<open>currentWatchFiles\<close> is subscribed in the watcher and is in \<^verbatim>\<open>currentWatchFiles\<close>.
  (\<open>s\<close> holds the locals when the new result has been stored; \<open>r\<close> tells whether a call
  threw.)
\<close>

lemma error_rebuild_keeps_watch_set:
  assumes err: "errors (result s) \<noteq> []"
    and rec: "reconcile E n s = (r, s')"
  shows "(\<exists>ps. trace s' = trace s @ map (\<lambda>p. WatcherAdd [p]) ps \<and>
               set ps \<subseteq> set (watchFiles (result s)) - set (currentWatchFiles s)) \<and>
         subscribed (trace s) \<subseteq> subscribed (trace s') \<and>
         set (currentWatchFiles s) \<subseteq> set (currentWatchFiles s') \<and>
         (r = None \<longrightarrow>
            set (watchFiles (result s)) - set (currentWatchFiles s)
              \<subseteq> subscribed (trace s') \<inter> set (currentWatchFiles s'))"
proof -
  obtain st where aw: "add_watch_files E n (watchFiles (result s)) s None = (r, s', st)"
    using err rec
    by (auto simp: reconcile_def split: prod.splits option.splits
             dest: add_watch_files_no_stale)
  from add_watch_files_trace [OF aw] obtain ps where
    ps: "trace s' = trace s @ map (\<lambda>p. WatcherAdd [p]) ps"
        "set ps \<subseteq> set (watchFiles (result s)) - set (currentWatchFiles s)"
    by blast
  have sub: "subscribed (trace s) \<subseteq> subscribed (trace s')"
    using ps(1) by (simp add: subscribed_adds)
  have cur: "set (currentWatchFiles s) \<subseteq> set (currentWatchFiles s')"
    using add_watch_files_current [OF aw] by simp
  have "set (watchFiles (result s)) - set (currentWatchFiles s)
          \<subseteq> subscribed (trace s') \<inter> set (currentWatchFiles s')" if "r = None"
    using add_watch_files_done [of E n "watchFiles (result s)" s None s' st] aw that by auto
  with ps sub cur show ?thesis by blast
qed

lemma error_rebuild_keeps_watch_set_example:
  "errors (result broken_rebuild) \<noteq> [] \<and>
   fst (reconcile quiet_env 1 broken_rebuild) = None \<and>
   subscribed (trace broken_rebuild)
     \<subseteq> subscribed (trace (snd (reconcile quiet_env 1 broken_rebuild))) \<and>
   ''/ws/b.ts'' \<in> subscribed (trace (snd (reconcile quiet_env 1 broken_rebuild))) \<and>
   ''/ws/c.ts'' \<in> subscribed (trace (snd (reconcile quiet_env 1 broken_rebuild))) \<and>
   currentWatchFiles (snd (reconcile quiet_env 1 broken_rebuild)) =
     [''/ws/a.ts'', ''/ws/b.ts'', ''/ws/c.ts'']"
proof -
  have err: "errors (result broken_rebuild) \<noteq> []"
    by (simp add: broken_rebuild_def example_defs)
  have rec: "reconcile quiet_env 1 broken_rebuild =
               (fst (reconcile quiet_env 1 broken_rebuild),
                snd (reconcile quiet_env 1 broken_rebuild))"
    by simp
  have ran: "fst (reconcile quiet_env 1 broken_rebuild) = None"
    by (simp add: broken_rebuild_def run_defs example_defs)
  have cur: "currentWatchFiles (snd (reconcile quiet_env 1 broken_rebuild)) =
               [''/ws/a.ts'', ''/ws/b.ts'', ''/ws/c.ts'']"
    by (simp add: broken_rebuild_def run_defs example_defs)
  have b: "''/ws/b.ts'' \<in> subscribed (trace broken_rebuild)"
    by (simp add: broken_rebuild_def example_defs subscribed_def)
  have c: "''/ws/c.ts'' \<in> set (watchFiles (result broken_rebuild))
                            - set (currentWatchFiles broken_rebuild)"
    by (simp add: broken_rebuild_def example_defs)
  from error_rebuild_keeps_watch_set [OF err rec] ran b c cur err
  show ?thesis by blast
qed

text \<open>
  Claim C2. In a rebuild whose result holds an error diagnostic no path is removed from
  the watch set, and every path of the new watch files that is not already watched is
  added to the watcher and to \<^verbatim>\<open>currentWatchFiles\<close>. The first part holds (lemma
  \<open>error_rebuild_keeps_watch_set\<close>), and so does the second for the paths that are not in
  \<^verbatim>\<open>currentWatchFiles\<close>. It does not for a path that an earlier rebuild removed from
  the watcher as stale: that path is still in \<^verbatim>\<open>currentWatchFiles\<close>, so it is not added.
  In the session \<open>relapse_env\<close> the first rebuild, without errors, drops \<^verbatim>\<open>b.ts\<close>; the
  second, with an error diagnostic, reports it again: \<^verbatim>\<open>b.ts\<close> is not subscribed in the
  watcher before the second reconciliation, and is not subscribed after it.
\<close>

theorem error_rebuild_skips_returning_file:
  "\<not> isl (start relapse_env watch_opts) \<and>
   fst (rebuild_loop relapse_env watch_opts 1 [touch ''/ws/a.ts'', touch ''/ws/a.ts'']
          (projr (start relapse_env watch_opts))) = Completed \<and>
   errors (result (relapse_session [touch ''/ws/a.ts'', touch ''/ws/a.ts''])) \<noteq> [] \<and>
   ''/ws/b.ts''
     \<in> set (watchFiles (result (relapse_session [touch ''/ws/a.ts'', touch ''/ws/a.ts'']))) \<and>
   ''/ws/b.ts'' \<notin> subscribed (trace (relapse_session [touch ''/ws/a.ts''])) \<and>
   ''/ws/b.ts''
     \<notin> subscribed (trace (relapse_session [touch ''/ws/a.ts'', touch ''/ws/a.ts'']))"
proof -
  have started: "\<not> isl (start relapse_env watch_opts)"
    by (simp add: relapse_env_def drop_env_def run_defs example_defs)
  have fin: "fst (rebuild_loop relapse_env watch_opts 1 [touch ''/ws/a.ts'', touch ''/ws/a.ts'']
          (projr (start relapse_env watch_opts))) = Completed"
    by (simp add: relapse_env_def drop_env_def run_defs example_defs)
  have res: "result (relapse_session [touch ''/ws/a.ts'', touch ''/ws/a.ts''])
               = res 2 [''TS2322''] [''/ws/a.ts'', ''/ws/b.ts'']"
    by (simp add: relapse_session_def relapse_env_def drop_env_def run_defs example_defs)
  have before: "''/ws/b.ts'' \<notin> subscribed (trace (relapse_session [touch ''/ws/a.ts'']))"
    by (simp add: relapse_session_def relapse_env_def drop_env_def run_defs example_defs
                  subscribed_def)
  have after: "''/ws/b.ts''
      \<notin> subscribed (trace (relapse_session [touch ''/ws/a.ts'', touch ''/ws/a.ts'']))"
    by (simp add: relapse_session_def relapse_env_def drop_env_def run_defs example_defs
                  subscribed_def)
  show ?thesis
    using started fin before after unfolding res by (simp add: res_def)
qed




text \<open>
  Claim C10. After the reconciliation of every rebuild each path of the new watch files is
  in \<^verbatim>\<open>currentWatchFiles\<close> and is subscribed in the watcher, and no path that is in
  \<^verbatim>\<open>currentWatchFiles\<close> is passed to \<^verbatim>\<open>watcher.add\<close>. The membership in
  \<^verbatim>\<open>currentWatchFiles\<close> and the absence of repeated adds hold (lemma
  \<open>reconcile_keeps_watch_files\<close>). The subscription does not: a stale path is removed
  from the watcher and stays in \<^verbatim>\<open>currentWatchFiles\<close>, so when a later result reports it
  again it is not added again. In the session \<open>drop_env\<close>, after the
  second rebuild, \<^verbatim>\<open>b.ts\<close> is a watch file of the new result and a member of
  \<^verbatim>\<open>currentWatchFiles\<close>, and the watcher is not subscribed to it.
\<close>

theorem returning_file_not_watched:
  "\<not> isl (start drop_env watch_opts) \<and>
   fst (rebuild_loop drop_env watch_opts 1 [touch ''/ws/a.ts'', touch ''/ws/a.ts'']
          (projr (start drop_env watch_opts))) = Completed \<and>
   ''/ws/b.ts'' \<in> set (watchFiles (result (drop_session [touch ''/ws/a.ts'', touch ''/ws/a.ts''])))
   \<and>
   ''/ws/b.ts'' \<in> set (currentWatchFiles (drop_session [touch ''/ws/a.ts'', touch ''/ws/a.ts'']))
   \<and>
   ''/ws/b.ts'' \<notin> subscribed (trace (drop_session [touch ''/ws/a.ts'', touch ''/ws/a.ts'']))"
proof -
  have started: "\<not> isl (start drop_env watch_opts)"
    by (simp add: drop_env_def run_defs example_defs)
  have fin: "fst (rebuild_loop drop_env watch_opts 1 [touch ''/ws/a.ts'', touch ''/ws/a.ts'']
          (projr (start drop_env watch_opts))) = Completed"
    by (simp add: drop_env_def run_defs example_defs)
  have cur: "currentWatchFiles (drop_session [touch ''/ws/a.ts'', touch ''/ws/a.ts''])
               = [''/ws/a.ts'', ''/ws/b.ts'']"
    by (simp add: drop_session_def drop_env_def run_defs example_defs)
  have res: "result (drop_session [touch ''/ws/a.ts'', touch ''/ws/a.ts''])
               = res 2 [] [''/ws/a.ts'', ''/ws/b.ts'']"
    by (simp add: drop_session_def drop_env_def run_defs example_defs)
  have sub: "''/ws/b.ts'' \<notin> subscribed (trace (drop_session [touch ''/ws/a.ts'', touch ''/ws/a.ts'']))"
    by (simp add: drop_session_def drop_env_def run_defs example_defs subscribed_def)
  show ?thesis
    using started fin sub unfolding cur res by (simp add: res_def)
qed

subsection \<open>Disposal and teardown\<close>

text \<open>
  Claim C3, as stated: in a session every Execution Result is disposed exactly once, the
  previous one when a new build completes. It fails in the watch session \<open>drop_once\<close>, where
  the results 0 and 1 are built and only result 1 is disposed, and in the single build
  \<open>single_env\<close> without watch mode, whose only result is never disposed.
\<close>

theorem superseded_result_not_disposed_counterexample:
  "map rid (built (snd (run drop_once watch_opts))) = [0, 1] \<and>
   disposed (snd (run drop_once watch_opts)) = [1] \<and>
   map rid (built (snd (run single_env build_opts))) = [0] \<and>
   disposed (snd (run single_env build_opts)) = []"
  by (simp add: session_defs)

text \<open>
  Claim C3, amended. In every session \<^verbatim>\<open>dispose()\<close> is called at most once, and only
  in the teardown of the rebuild loop, on the most recent Execution Result, between the
  closing of the watcher and the shutdown of the Sass workers. It is called exactly when
  the rebuild loop was entered, so never when watch mode was not requested. A result that
  a later build replaced is not disposed by the build action: its state went to that build
  through \<^verbatim>\<open>createRebuildState\<close>.
\<close>

theorem dispose_only_at_teardown:
  "length (disposed (snd (run E opts))) \<le> 1 \<and>
   (\<forall>i\<in>set (disposed (snd (run E opts))).
      \<exists>r pre. latest_result (snd (run E opts)) = Some r \<and> rid r = i \<and>
              snd (run E opts) =
                pre @ [WatcherClose (close_rejects E), Dispose i (dispose_rejects E),
                       ShutdownSassWorkerPool] \<and>
              disposed pre = []) \<and>
   (disposed (snd (run E opts)) = [] \<longleftrightarrow> isl (start E opts)) \<and>
   (\<not> watch opts \<longrightarrow> disposed (snd (run E opts)) = [])"
proof (cases "start E opts")
  case (Inl a)
  then show ?thesis
    using start_ended [of E opts "fst a" "snd a"] by simp
next
  case (Inr s)
  from run_teardown [OF Inr] obtain pre r where
    T: "snd (run E opts) = pre @ [WatcherClose (close_rejects E),
          Dispose (rid r) (dispose_rejects E), ShutdownSassWorkerPool]"
    and d: "disposed pre = []" and l: "latest_result pre = Some r"
    by blast
  have "disposed (snd (run E opts)) = [rid r]"
    unfolding T using d by (simp add: disposed_append)
  moreover have "latest_result (snd (run E opts)) = Some r"
    unfolding T using l by (simp add: latest_result_append)
  moreover have "watch opts"
    using start_state [OF Inr] by simp
  ultimately show ?thesis
    using Inr T d by auto
qed

theorem dispose_only_at_teardown_witness:
  "watch watch_opts \<and> \<not> isl (start drop_once watch_opts) \<and>
   disposed (snd (run drop_once watch_opts)) = [1] \<and>
   (\<exists>r pre. latest_result (snd (run drop_once watch_opts)) = Some r \<and> rid r = 1 \<and>
            snd (run drop_once watch_opts) =
              pre @ [WatcherClose False, Dispose 1 False, ShutdownSassWorkerPool] \<and>
            disposed pre = [])"
proof -
  have w: "watch watch_opts" by (simp add: example_defs)
  have d: "disposed (snd (run drop_once watch_opts)) = [1]"
    by (simp add: session_defs)
  have c: "close_rejects drop_once = False" "dispose_rejects drop_once = False"
    by (simp_all add: session_defs)
  from dispose_only_at_teardown [of drop_once watch_opts] d c w
  show ?thesis by simp
qed

text \<open>
  Claim C4. Whenever the rebuild loop was entered, however it is left (the signal is
  aborted, the watcher is closed or fails, the consumer stops, or the rebuild, the
  logging, the reconciliation or the materialization throws), the trace ends with the
  call of \<^verbatim>\<open>watcher.close()\<close>, the call of \<^verbatim>\<open>dispose()\<close> on the most recent Execution
  Result, and then the shutdown of the Sass workers; this whether or not the promise of
  either call rejects (\<open>close_rejects\<close>, \<open>dispose_rejects\<close> are arbitrary), and the way the
  generator ends is the way the loop ended. Both calls return promises, so a failure is a
  rejection that \<^verbatim>\<open>Promise.allSettled\<close> awaits.
\<close>

theorem teardown_always_runs:
  assumes "start E opts = Inr s"
  shows "\<exists>pre r. snd (run E opts) =
                   pre @ [WatcherClose (close_rejects E), Dispose (rid r) (dispose_rejects E),
                          ShutdownSassWorkerPool] \<and>
                 latest_result pre = Some r \<and>
                 fst (run E opts) = fst (rebuild_loop E opts 1 (batches E) s)"
  using run_teardown [OF assms] by blast

theorem teardown_always_runs_witness:
  "start failing_rebuild_env watch_opts = Inr (projr (start failing_rebuild_env watch_opts)) \<and>
   fst (run failing_rebuild_env watch_opts) = Threw (Exn ''rebuild failed'') \<and>
   disposed (snd (run failing_rebuild_env watch_opts)) = [0] \<and>
   (\<exists>pre r. snd (run failing_rebuild_env watch_opts) =
              pre @ [WatcherClose True, Dispose (rid r) False, ShutdownSassWorkerPool] \<and>
            latest_result pre = Some r)"
proof -
  have d: "disposed (snd (run failing_rebuild_env watch_opts)) = [0]"
    by (simp add: session_defs)
  have "\<not> isl (start failing_rebuild_env watch_opts)"
    by (simp add: session_defs)
  then have s: "start failing_rebuild_env watch_opts =
                  Inr (projr (start failing_rebuild_env watch_opts))"
    by (cases "start failing_rebuild_env watch_opts") simp_all
  have x: "fst (run failing_rebuild_env watch_opts) = Threw (Exn ''rebuild failed'')"
    by (simp add: session_defs)
  have c: "close_rejects failing_rebuild_env = True" "dispose_rejects failing_rebuild_env = False"
    by (simp_all add: session_defs)
  from teardown_always_runs [OF s] s x d show ?thesis
    unfolding c by blast
qed

subsection \<open>The initial build and the first output\<close>

text \<open>
  Claim C5. When watch mode is not requested no watcher is ever created and at most one
  value is yielded; when moreover the calls up to the first \<^verbatim>\<open>yield\<close> return (the
  deletion of the output directory, the initial build, the logging, the writer), the
  generator yields exactly one value, the materialized initial result, and completes.
\<close>

theorem no_watch_single_output:
  assumes "\<not> watch opts"
  shows "(\<forall>e\<in>set (snd (run E opts)). \<not> is_CreateWatcher e) \<and>
         length (yields (snd (run E opts))) \<le> 1 \<and>
         (\<forall>r out.
            (deleteOutputPath opts \<and> writeToFileSystem opts \<longrightarrow> deleteOutputDir_throws E = None) \<and>
            action E 0 None = Inr r \<and> logMessages_throws E 0 = None \<and>
            snd (writeAndEmitOutput E 0 (writeToFileSystem opts) r (outputOptions opts)
                   (writeToFileSystemFilter opts)) = Inr out
            \<longrightarrow> fst (run E opts) = Completed \<and> yields (snd (run E opts)) = [out])"
proof -
  obtain tr x where b: "before_first_yield E opts = (tr, x)" by force
  have quiet: "yields tr = []" "\<forall>e\<in>set tr. \<not> is_CreateWatcher e"
    using before_first_yield_quiet [OF b] before_first_yield_no_watcher [OF b assms]
    by (simp_all add: yields_none)
  have run: "run E opts = (case x of Inl e \<Rightarrow> (Threw e, tr)
                           | Inr (r, out) \<Rightarrow> (Completed, tr @ [Yield out]))"
    using b assms by (auto simp: run_def start_def split: sum.splits)
  have 1: "\<forall>e\<in>set (snd (run E opts)). \<not> is_CreateWatcher e"
    unfolding run using quiet by (auto split: sum.splits)
  have 2: "length (yields (snd (run E opts))) \<le> 1"
    unfolding run using quiet by (auto simp: yields_append split: sum.splits)
  have 3: "fst (run E opts) = Completed \<and> yields (snd (run E opts)) = [out]"
    if "deleteOutputPath opts \<and> writeToFileSystem opts \<longrightarrow> deleteOutputDir_throws E = None"
      "action E 0 None = Inr r" "logMessages_throws E 0 = None"
      "snd (writeAndEmitOutput E 0 (writeToFileSystem opts) r (outputOptions opts)
                   (writeToFileSystemFilter opts)) = Inr out" for r out
  proof -
    have "x = Inr (r, out)"
      using b that assms
      by (auto simp: before_first_yield_def initial_build_def calls_single
               split: prod.splits sum.splits if_splits option.splits)
    with run quiet show ?thesis by (simp add: yields_append)
  qed
  from 1 2 3 show ?thesis by blast
qed

theorem no_watch_single_output_witness:
  "\<not> watch build_opts \<and>
   fst (run single_env build_opts) = Completed \<and>
   yields (snd (run single_env build_opts)) = [Output True] \<and>
   filter is_CreateWatcher (snd (run single_env build_opts)) = []"
proof -
  have nw: "\<not> watch build_opts" by (simp add: build_opts_def example_defs)
  have h: "(deleteOutputPath build_opts \<and> writeToFileSystem build_opts \<longrightarrow>
              deleteOutputDir_throws single_env = None) \<and>
           action single_env 0 None = Inr (res 0 [] [''/ws/a.ts'']) \<and>
           logMessages_throws single_env 0 = None \<and>
           snd (writeAndEmitOutput single_env 0 (writeToFileSystem build_opts)
                  (res 0 [] [''/ws/a.ts'']) (outputOptions build_opts)
                  (writeToFileSystemFilter build_opts)) = Inr (Output True)"
    by (simp add: session_defs)
  from no_watch_single_output [OF nw, of single_env] h nw
  show ?thesis by (auto simp: filter_empty_conv)
qed

text \<open>
  Claim C7. In a watch-mode invocation whose initial build returns and whose calls up to
  there do not throw, the watcher is given, in one call of \<^verbatim>\<open>add\<close>, the paths of the
  names of the fixed list joined to the workspace root that exist on disk; each such path
  is in the subscribed set after that call. This for every initial result \<open>r\<close>, whatever
  its watch files.
\<close>

theorem package_files_watched:
  assumes "watch opts"
    and "deleteOutputPath opts \<and> writeToFileSystem opts \<longrightarrow> deleteOutputDir_throws E = None"
    and "action E 0 None = Inr r" 
    and "logMessages_throws E 0 = None"
    and "createWatcher_throws E = None"
    and "shouldWatchRoot E \<longrightarrow> watcher_add_throws E 0 [projectRoot opts] = None"
    and "watcher_add_throws E 0 (package_paths E opts) = None"
  shows "\<exists>pre post.
           snd (run E opts) = pre @ WatcherAdd (package_paths E opts) # post \<and>
           (\<forall>name\<in>set [''package.json'', ''package-lock.json'', ''pnpm-lock.yaml'',
                         ''yarn.lock'', ''.pnp.cjs'', ''.pnp.data.json''].
              existsSync E (path_join E (workspaceRoot opts) name) \<longrightarrow>
              path_join E (workspaceRoot opts) name \<in> set (package_paths E opts) \<and>
              path_join E (workspaceRoot opts) name
                \<in> subscribed (pre @ [WatcherAdd (package_paths E opts)]))"
proof -
  obtain tr x where b: "before_first_yield E opts = (tr, x)" by force
  from before_first_yield_setup [OF assms(1,3,4,2) b] obtain a c where
    tr: "tr = a @ fst (setup_watcher E opts r) @ c" by blast
  from setup_watcher_packages [OF assms(5,6,7)] obtain a' c' where
    su: "fst (setup_watcher E opts r) = a' @ WatcherAdd (package_paths E opts) # c'" by blast
  from run_prefix [OF b] obtain ext where T: "snd (run E opts) = tr @ ext" by blast
  have shape: "snd (run E opts) = (a @ a') @ WatcherAdd (package_paths E opts) # (c' @ c @ ext)"
    unfolding T tr su by simp
  have "path_join E (workspaceRoot opts) name \<in> set (package_paths E opts) \<and>
        path_join E (workspaceRoot opts) name
          \<in> subscribed ((a @ a') @ [WatcherAdd (package_paths E opts)])"
    if "name \<in> set [''package.json'', ''package-lock.json'', ''pnpm-lock.yaml'',
                     ''yarn.lock'', ''.pnp.cjs'', ''.pnp.data.json'']"
      "existsSync E (path_join E (workspaceRoot opts) name)" for name
  proof -
    from that have "path_join E (workspaceRoot opts) name \<in> set (package_paths E opts)"
      unfolding package_paths_def packageWatchFiles_def by auto
    then show ?thesis by (simp add: subscribed_def)
  qed
  with shape show ?thesis by blast
qed

theorem package_files_watched_witness:
  "watch watch_opts \<and> action drop_once 0 None = Inr (res 0 [] [''/ws/a.ts'', ''/ws/b.ts'']) \<and>
   existsSync drop_once (path_join drop_once (workspaceRoot watch_opts) ''package.json'') \<and>
   (\<exists>pre post. snd (run drop_once watch_opts) = pre @ WatcherAdd [''/ws/package.json''] # post \<and>
       ''/ws/package.json'' \<in> subscribed (pre @ [WatcherAdd [''/ws/package.json'']]))"
proof -
  have w: "watch watch_opts" by (simp add: example_defs)
  have d: "deleteOutputPath watch_opts \<and> writeToFileSystem watch_opts \<longrightarrow>
           deleteOutputDir_throws drop_once = None"
    by (simp add: session_defs)
  have a: "action drop_once 0 None = Inr (res 0 [] [''/ws/a.ts'', ''/ws/b.ts''])"
    by (simp add: session_defs)
  have l: "logMessages_throws drop_once 0 = None" by (simp add: session_defs)
  have c: "createWatcher_throws drop_once = None" by (simp add: session_defs)
  have r: "shouldWatchRoot drop_once \<longrightarrow>
           watcher_add_throws drop_once 0 [projectRoot watch_opts] = None"
    by (simp add: session_defs)
  have p: "watcher_add_throws drop_once 0 (package_paths drop_once watch_opts) = None"
    by (simp add: session_defs)
  have pk: "package_paths drop_once watch_opts = [''/ws/package.json'']"
    by (simp add: session_defs)
  have j: "path_join drop_once (workspaceRoot watch_opts) ''package.json'' = ''/ws/package.json''"
    by (simp add: session_defs)
  have e: "existsSync drop_once ''/ws/package.json''"
    by (simp add: session_defs)
  from package_files_watched [OF w d a l c r p] w a e j
  show ?thesis unfolding pk by fastforce
qed

text \<open>
  Claim C8. In a watch-mode invocation that yields a first value, the calls made before
  that first \<^verbatim>\<open>yield\<close> have subscribed the watcher to the project root (when
  \<^verbatim>\<open>shouldWatchRoot\<close> is set), to the manifest and lockfile paths that exist, and to
  every watch file of the initial result.
\<close>

theorem watcher_installed_before_first_output:
  assumes w: "watch opts"
    and build: "action E 0 None = Inr r"
    and first: "\<exists>out. Yield out \<in> set (snd (run E opts))"
  shows "set ((if shouldWatchRoot E then [projectRoot opts] else []) @ package_paths E opts
              @ watchFiles r)
           \<subseteq> subscribed (takeWhile (\<lambda>e. \<not> is_Yield e) (snd (run E opts)))"
proof -
  obtain tr x where b: "before_first_yield E opts = (tr, x)" by force
  have quiet: "\<forall>e\<in>set tr. \<not> is_Yield e"
    using before_first_yield_quiet [OF b] by simp
  show ?thesis
  proof (cases x)
    case (Inl e)
    with b run_throw have "snd (run E opts) = tr" by simp
    with quiet first show ?thesis by auto
  next
    case (Inr p)
    obtain r' out where p: "p = (r', out)" by force
    from before_first_yield_result [OF b [unfolded Inr p]] build have r': "r' = r" by simp
    from run_yield [OF b [unfolded Inr p]] obtain ext where
      T: "snd (run E opts) = tr @ Yield out # ext" by blast
    have "takeWhile (\<lambda>e. \<not> is_Yield e) (snd (run E opts)) = tr"
      unfolding T using quiet by (rule takeWhile_first_yield)
    with before_first_yield_subscribed [OF b [unfolded Inr p r'] w] show ?thesis by simp
  qed
qed

theorem watcher_installed_before_first_output_witness:
  "watch watch_opts \<and> action drop_once 0 None = Inr (res 0 [] [''/ws/a.ts'', ''/ws/b.ts'']) \<and>
   Yield (Output True) \<in> set (snd (run drop_once watch_opts)) \<and>
   {''/ws/app'', ''/ws/package.json'', ''/ws/a.ts'', ''/ws/b.ts''}
     \<subseteq> subscribed (takeWhile (\<lambda>e. \<not> is_Yield e) (snd (run drop_once watch_opts)))"
proof -
  have w: "watch watch_opts" by (simp add: example_defs)
  have a: "action drop_once 0 None = Inr (res 0 [] [''/ws/a.ts'', ''/ws/b.ts''])"
    by (simp add: session_defs)
  have y: "Yield (Output True) \<in> set (snd (run drop_once watch_opts))"
    by (simp add: session_defs)
  then have first: "\<exists>out. Yield out \<in> set (snd (run drop_once watch_opts))" by blast
  have ex: "set ((if shouldWatchRoot drop_once then [projectRoot watch_opts] else [])
              @ package_paths drop_once watch_opts
              @ watchFiles (res 0 [] [''/ws/a.ts'', ''/ws/b.ts''])) =
            {''/ws/app'', ''/ws/package.json'', ''/ws/a.ts'', ''/ws/b.ts''}"
    by (simp add: session_defs)
  from watcher_installed_before_first_output [OF w a first] w a y
  show ?thesis unfolding ex by simp
qed

text \<open>
  Claim C9. If the initial build throws \<open>x\<close> (the deletion of the output directory, when
  it runs, having returned), the generator throws \<open>x\<close> to its consumer, and its whole trace
  is that deletion, the call of the build action, and the shutdown of the Sass workers
  exactly when watch mode was not requested: no watcher is created and the rebuild loop
  is not entered.
\<close>

theorem initial_build_throws:
  assumes "action E 0 None = Inl x"
    and "deleteOutputPath opts \<and> writeToFileSystem opts \<longrightarrow> deleteOutputDir_throws E = None"
  shows "run E opts =
           (Threw x,
            (if deleteOutputPath opts \<and> writeToFileSystem opts
             then [DeleteOutputDir (workspaceRoot opts) (base (outputOptions opts))
                     [browser (outputOptions opts), server (outputOptions opts)]]
             else [])
            @ [Action None (Inl x)]
            @ (if watch opts then [] else [ShutdownSassWorkerPool])) \<and>
         isl (start E opts) \<and>
         (\<forall>e\<in>set (snd (run E opts)). \<not> is_CreateWatcher e) \<and>
         (ShutdownSassWorkerPool \<in> set (snd (run E opts)) \<longleftrightarrow> \<not> watch opts)"
  using assms
  by (auto simp: run_def start_def before_first_yield_def initial_build_def calls_single)

theorem initial_build_throws_witness:
  "action quiet_env 0 None = Inl (Exn ''build failed'') \<and>
   run quiet_env watch_opts =
     (Threw (Exn ''build failed''),
      [DeleteOutputDir ''/ws'' ''/ws/dist'' [''browser'', ''server''],
       Action None (Inl (Exn ''build failed''))]) \<and>
   run quiet_env build_opts =
     (Threw (Exn ''build failed''),
      [DeleteOutputDir ''/ws'' ''/ws/dist'' [''browser'', ''server''],
       Action None (Inl (Exn ''build failed'')), ShutdownSassWorkerPool])"
proof -
  have a: "action quiet_env 0 None = Inl (Exn ''build failed'')"
    by (simp add: example_defs)
  have d: "deleteOutputPath opts \<and> writeToFileSystem opts \<longrightarrow> deleteOutputDir_throws quiet_env = None"
    for opts by (simp add: example_defs)
  from initial_build_throws [OF a d, of watch_opts] initial_build_throws [OF a d, of build_opts] a
  show ?thesis by (simp add: build_opts_def example_defs)
qed

end
